theory Spec2Isabelle
  imports Main
begin

section \<open>Python strings\<close>

text \<open>
  A Python \<open>str\<close> is a sequence of Unicode code points, modelled as a list of naturals.
  \<open>ustr\<close> reads an ASCII literal as such a sequence.
\<close>

type_synonym codepoint = nat
type_synonym pystr = "codepoint list"

definition ustr :: "string \<Rightarrow> pystr" where
  "ustr s = map of_char s"

text \<open>
  The code points for which \<open>str.isspace\<close> holds; \<open>str.split()\<close> and \<open>str.strip()\<close>
  without arguments cut at exactly these: TAB to CR, FS to US and the space, NEL, the
  no-break space, and the Unicode space separators and line/paragraph separators.
\<close>

definition isspace :: "codepoint \<Rightarrow> bool" where
  "isspace c =
     ((9 \<le> c \<and> c \<le> 13) \<or> (28 \<le> c \<and> c \<le> 32) \<or> c = 133 \<or> c = 160 \<or> c = 5760 \<or>
      (8192 \<le> c \<and> c \<le> 8202) \<or> c = 8232 \<or> c = 8233 \<or> c = 8239 \<or> c = 8287 \<or>
      c = 12288)"

text \<open>
  \<open>string.punctuation\<close>: the 32 ASCII characters
  \<^verbatim>\<open>!"#$%&'()*+,-./\<close> (33 to 47), \<^verbatim>\<open>:;<=>?@\<close> (58 to 64),
  \<^verbatim>\<open>[\]^_`\<close> (91 to 96) and \<^verbatim>\<open>{|}~\<close> (123 to 126), in this order.
\<close>

definition punctuation :: pystr where
  "punctuation = [33..<48] @ [58..<65] @ [91..<97] @ [123..<127]"

text \<open>\<open>s.replace(old, new)\<close> for one-character \<open>old\<close> and \<open>new\<close>.\<close>

definition replace_char :: "codepoint \<Rightarrow> codepoint \<Rightarrow> pystr \<Rightarrow> pystr" where
  "replace_char old new s = map (\<lambda>c. if c = old then new else c) s"

text \<open>\<open>s.translate(str.maketrans('', '', d))\<close>: every code point of \<open>d\<close> is deleted.\<close>

definition translate_delete :: "pystr \<Rightarrow> pystr \<Rightarrow> pystr" where
  "translate_delete d s = filter (\<lambda>c. c \<notin> set d) s"

text \<open>
  \<open>s.lower()\<close>. On an ASCII code point it is the C locale's \<open>tolower\<close>: A to Z move up
  by 32 and every other code point stays. On a code point from 128 on, the result is
  taken from the Unicode character database of the runtime, may be several code points
  long and (for the capital sigma) depends on the neighbours; that table is not part of
  the program, so it is the parameter \<open>L\<close>, given the whole string and the position.
\<close>

type_synonym lowering = "pystr \<Rightarrow> nat \<Rightarrow> pystr"

definition ascii_lower :: "codepoint \<Rightarrow> codepoint" where
  "ascii_lower c = (if 65 \<le> c \<and> c \<le> 90 then c + 32 else c)"

fun lower_from :: "lowering \<Rightarrow> pystr \<Rightarrow> nat \<Rightarrow> pystr \<Rightarrow> pystr" where
  "lower_from L s i [] = []"
| "lower_from L s i (c # cs) =
     (if c < 128 then [ascii_lower c] else L s i) @ lower_from L s (Suc i) cs"

definition lower :: "lowering \<Rightarrow> pystr \<Rightarrow> pystr" where
  "lower L s = lower_from L s 0 s"

text \<open>The lowering that leaves every code point from 128 on as it is.\<close>

definition keep_lowering :: lowering where
  "keep_lowering s i = [s ! i]"

text \<open>
  \<open>s.split()\<close>: skip the white space, take the longest run without white space as the
  next word, and go on behind it until the string ends.
\<close>

function split :: "pystr \<Rightarrow> pystr list" where
  "split s =
     (case dropWhile isspace s of
        [] \<Rightarrow> []
      | c # cs \<Rightarrow> (c # takeWhile (\<lambda>x. \<not> isspace x) cs) # split (dropWhile (\<lambda>x. \<not> isspace x) cs))"
  by pat_completeness auto
termination
proof (relation "measure length")
  show "wf (measure length)" by simp
next
  fix s :: pystr and c cs
  assume a: "dropWhile isspace s = c # cs"
  have "length (dropWhile (\<lambda>x. \<not> isspace x) cs) \<le> length cs"
    by (rule length_dropWhile_le)
  moreover have "length (c # cs) \<le> length s"
    using length_dropWhile_le [of isspace s] a by simp
  ultimately show "(dropWhile (\<lambda>x. \<not> isspace x) cs, s) \<in> measure length"
    by simp
qed

declare split.simps [simp del]

text \<open>\<open>s.strip()\<close>: the white space at both ends is dropped.\<close>

definition strip :: "pystr \<Rightarrow> pystr" where
  "strip s = rev (dropWhile isspace (rev (dropWhile isspace s)))"

section \<open>The ignore list and the interruption handler\<close>

text \<open>The module global \<open>IGNORE_WORDS\<close>, as the source initialises it.\<close>

definition IGNORE_WORDS :: "pystr set" where
  "IGNORE_WORDS = set (map ustr
     [''yeah'', ''yep'', ''yes'', ''ok'', ''okay'', ''alright'',
      ''hmm'', ''mhm'', ''aha'', ''uh-huh'', ''uhhuh'', ''mm-hm'',
      ''right'', ''sure'', ''correct'', ''yea'', ''oka''])"

text \<open>
  \<open>InterruptionHandler.is_backchannel\<close>. The value of the global \<open>IGNORE_WORDS\<close> that
  the call reads is the argument \<open>W\<close>.
\<close>

definition clean_text :: "lowering \<Rightarrow> pystr \<Rightarrow> pystr" where
  "clean_text L text = lower L (translate_delete punctuation (replace_char 45 32 text))"

definition is_backchannel :: "lowering \<Rightarrow> pystr set \<Rightarrow> pystr \<Rightarrow> bool" where
  "is_backchannel L W text =
     (let words = split (clean_text L text) in
      if words = [] then True else set words \<subseteq> W)"

text \<open>\<open>InterruptionHandler.should_interrupt\<close>.\<close>

definition should_interrupt :: "lowering \<Rightarrow> pystr set \<Rightarrow> pystr \<Rightarrow> bool \<Rightarrow> bool" where
  "should_interrupt L W text is_agent_speaking =
     (if \<not> is_agent_speaking then False
      else if is_backchannel L W text then False
      else True)"

text \<open>
  What the two functions do when the caller passes \<open>None\<close> instead of a \<open>str\<close>. The first
  thing \<open>is_backchannel\<close> evaluates is the call \<open>text.replace("-", " ")\<close>: on \<open>None\<close> the
  attribute lookup raises \<open>AttributeError\<close>, on a string it returns the new string, and the
  rest of the body works on that string. \<open>should_interrupt\<close> touches \<open>text\<close> only through
  \<open>is_backchannel\<close>, and the exception passes through it. Other objects are not modelled.
\<close>

datatype pyval = PyNone | PyStr pystr

datatype error = AttributeError

fun call_replace :: "pyval \<Rightarrow> codepoint \<Rightarrow> codepoint \<Rightarrow> error + pystr" where
  "call_replace PyNone old new = Inl AttributeError"
| "call_replace (PyStr s) old new = Inr (replace_char old new s)"

definition is_backchannel_any :: "lowering \<Rightarrow> pystr set \<Rightarrow> pyval \<Rightarrow> error + bool" where
  "is_backchannel_any L W text =
     (case call_replace text 45 32 of
        Inl e \<Rightarrow> Inl e
      | Inr replaced \<Rightarrow>
          (let words = split (lower L (translate_delete punctuation replaced)) in
           if words = [] then Inr True else Inr (set words \<subseteq> W)))"

definition should_interrupt_any :: "lowering \<Rightarrow> pystr set \<Rightarrow> pyval \<Rightarrow> bool \<Rightarrow> error + bool" where
  "should_interrupt_any L W text is_agent_speaking =
     (if \<not> is_agent_speaking then Inr False
      else case is_backchannel_any L W text of
             Inl e \<Rightarrow> Inl e
           | Inr b \<Rightarrow> (if b then Inr False else Inr True))"

section \<open>The session handlers\<close>

text \<open>
  What a handler does to the outside: the log records it writes and the calls it makes on
  the session, in order. \<open>session.response_agent.is_speaking\<close>, read by both handlers,
  is the argument \<open>agent_speaking\<close>; \<open>msg.content\<close> is the argument \<open>content\<close>.
\<close>

datatype effect =
    LogInterrupt pystr
  | Interrupt
  | LogIgnore pystr
  | LogReply pystr
  | GenerateReply

definition on_transcription :: "lowering \<Rightarrow> pystr set \<Rightarrow> bool \<Rightarrow> pystr \<Rightarrow> effect list" where
  "on_transcription L W agent_speaking content =
     (let text = strip content in
      if text = [] then []
      else let is_speaking = agent_speaking in
        if should_interrupt L W text is_speaking then [LogInterrupt text, Interrupt]
        else if is_speaking then [LogIgnore text]
        else [])"

definition on_user_speech_committed :: "bool \<Rightarrow> pystr \<Rightarrow> effect list" where
  "on_user_speech_committed agent_speaking content =
     (if \<not> agent_speaking
      then (let text = strip content in [LogReply text, GenerateReply])
      else [])"

section \<open>The calls on a store of objects\<close>

text \<open>
  The two functions once more, on the objects they touch. Strings and booleans are
  immutable and stay values. A list and a set are mutable objects: they live in a heap
  under an address, and the module global \<open>IGNORE_WORDS\<close> is a binding to the address
  of a set, which a call could rebind or whose set it could change. \<open>next_addr\<close> is the
  first address never used.
\<close>

type_synonym addr = nat

datatype obj = ListObj "pystr list" | SetObj "pystr set"

record store =
  heap :: "addr \<Rightarrow> obj option"
  ignore_words_ref :: addr
  next_addr :: addr

text \<open>A new object is put under the first unused address, which is returned.\<close>

definition alloc :: "obj \<Rightarrow> store \<Rightarrow> addr \<times> store" where
  "alloc ob st =
     (next_addr st, st\<lparr>heap := (heap st)(next_addr st := Some ob), next_addr := Suc (next_addr st)\<rparr>)"

text \<open>\<open>set(words)\<close>: a new set with the elements of the list under \<open>a\<close>.\<close>

definition set_of_list :: "addr \<Rightarrow> store \<Rightarrow> (addr \<times> store) option" where
  "set_of_list a st =
     (case heap st a of Some (ListObj ws) \<Rightarrow> Some (alloc (SetObj (set ws)) st) | _ \<Rightarrow> None)"

text \<open>\<open>not words\<close>: whether the list under \<open>a\<close> is empty.\<close>

definition list_is_empty :: "addr \<Rightarrow> store \<Rightarrow> bool option" where
  "list_is_empty a st = (case heap st a of Some (ListObj ws) \<Rightarrow> Some (ws = []) | _ \<Rightarrow> None)"

text \<open>\<open>x.issubset(y)\<close> reads the sets under both addresses and changes neither.\<close>

definition issubset :: "addr \<Rightarrow> addr \<Rightarrow> store \<Rightarrow> bool option" where
  "issubset a b st =
     (case heap st a of
        Some (SetObj x) \<Rightarrow> (case heap st b of Some (SetObj y) \<Rightarrow> Some (x \<subseteq> y) | _ \<Rightarrow> None)
      | _ \<Rightarrow> None)"

text \<open>
  \<open>is_backchannel\<close>: \<open>split\<close> makes the list \<open>words\<close>; when it is not empty, \<open>set(words)\<close>
  makes a set, the global is looked up and \<open>issubset\<close> compares the two. The result is
  \<open>None\<close> where an address does not hold the object the operation needs.
\<close>

definition is_backchannel_call :: "lowering \<Rightarrow> pystr \<Rightarrow> store \<Rightarrow> (bool \<times> store) option" where
  "is_backchannel_call L text st =
     (case alloc (ListObj (split (clean_text L text))) st of
        (words, st1) \<Rightarrow>
          (case list_is_empty words st1 of
             None \<Rightarrow> None
           | Some True \<Rightarrow> Some (True, st1)
           | Some False \<Rightarrow>
               (case set_of_list words st1 of
                  None \<Rightarrow> None
                | Some (s, st2) \<Rightarrow>
                    (case issubset s (ignore_words_ref st2) st2 of
                       None \<Rightarrow> None
                     | Some b \<Rightarrow> Some (b, st2)))))"

definition should_interrupt_call ::
  "lowering \<Rightarrow> pystr \<Rightarrow> bool \<Rightarrow> store \<Rightarrow> (bool \<times> store) option" where
  "should_interrupt_call L text is_agent_speaking st =
     (if \<not> is_agent_speaking then Some (False, st)
      else (case is_backchannel_call L text st of
              None \<Rightarrow> None
            | Some (b, st') \<Rightarrow> (if b then Some (False, st') else Some (True, st'))))"

text \<open>The set that the global is bound to.\<close>

definition lexicon :: "store \<Rightarrow> pystr set" where
  "lexicon st = (case heap st (ignore_words_ref st) of Some (SetObj W) \<Rightarrow> W | _ \<Rightarrow> {})"

text \<open>
  A store as the module leaves it after import: nothing lives at or above \<open>next_addr\<close>,
  and the global is bound to a set.
\<close>

definition store_ok :: "store \<Rightarrow> bool" where
  "store_ok st =
     ((\<forall>a. next_addr st \<le> a \<longrightarrow> heap st a = None)
      \<and> (\<exists>W. heap st (ignore_words_ref st) = Some (SetObj W)))"

text \<open>
  What a call may do to a store: add objects. Every object that lived before is the same
  afterwards, and the global is bound to the same address.
\<close>

definition untouched :: "store \<Rightarrow> store \<Rightarrow> bool" where
  "untouched st st' =
     (ignore_words_ref st' = ignore_words_ref st
      \<and> (\<forall>a. a < next_addr st \<longrightarrow> heap st' a = heap st a)
      \<and> next_addr st \<le> next_addr st'
      \<and> store_ok st')"

text \<open>The store right after the module is imported: the ignore list under address 0.\<close>

definition module_store :: store where
  "module_store =
     \<lparr>heap = (\<lambda>a. None)(0 := Some (SetObj IGNORE_WORDS)), ignore_words_ref = 0, next_addr = 1\<rparr>"

section \<open>The classifier as the specification words it\<close>

text \<open>
  The six steps of the specification's algorithm, written independently of the code:
  hyphen characters become a space, punctuation characters are stripped, the result is
  lowercased, it is cut at every white space character into fields of which the empty
  ones are discarded, and the answer is true for no token and otherwise whether every
  token is in the lexicon. The specification does not list the hyphen characters and the
  punctuation characters, so both are arguments.
\<close>

fun cut_fields :: "pystr \<Rightarrow> pystr list" where
  "cut_fields [] = [[]]"
| "cut_fields (c # cs) =
     (if isspace c then [] # cut_fields cs
      else (case cut_fields cs of [] \<Rightarrow> [[c]] | t # ts \<Rightarrow> (c # t) # ts))"

definition spec_tokens ::
  "(codepoint \<Rightarrow> bool) \<Rightarrow> (codepoint \<Rightarrow> bool) \<Rightarrow> lowering \<Rightarrow> pystr \<Rightarrow> pystr list" where
  "spec_tokens is_hyphen is_punct L text =
     filter (\<lambda>t. t \<noteq> [])
       (cut_fields (lower L (filter (\<lambda>c. \<not> is_punct c)
                           (map (\<lambda>c. if is_hyphen c then 32 else c) text))))"

definition spec_is_backchannel ::
  "(codepoint \<Rightarrow> bool) \<Rightarrow> (codepoint \<Rightarrow> bool) \<Rightarrow> lowering \<Rightarrow> pystr set \<Rightarrow> pystr \<Rightarrow> bool" where
  "spec_is_backchannel is_hyphen is_punct L W text =
     (let tokens = spec_tokens is_hyphen is_punct L text in
      if tokens = [] then True else list_all (\<lambda>t. t \<in> W) tokens)"

text \<open>
  The characters the program names: the hyphen-minus of \<open>replace("-", " ")\<close> and the 32
  ASCII characters of \<open>string.punctuation\<close>.
\<close>

definition ascii_hyphen :: "codepoint \<Rightarrow> bool" where
  "ascii_hyphen c = (c = 45)"

definition ascii_punct :: "codepoint \<Rightarrow> bool" where
  "ascii_punct c = (c \<in> set punctuation)"

text \<open>
  A reading of "all punctuation characters" that goes one character beyond ASCII: the
  horizontal ellipsis U+2026 (8230), of Unicode's category "punctuation, other", which
  \<open>str.lower\<close> leaves as it is.
\<close>

definition punct_with_ellipsis :: "codepoint \<Rightarrow> bool" where
  "punct_with_ellipsis c = (ascii_punct c \<or> c = 8230)"

text \<open>
  A lowercasing table under which a white space code point from 128 on is its own
  lowercase, as it is in the runtime's table.
\<close>

definition lowering_keeps_space :: "lowering \<Rightarrow> bool" where
  "lowering_keeps_space L =
     (\<forall>s i. i < length s \<and> 128 \<le> s ! i \<and> isspace (s ! i) \<longrightarrow> L s i = [s ! i])"

section \<open>Canonical tokens\<close>

text \<open>
  A token is canonical when lowercasing leaves it as it is and it holds neither white
  space nor a punctuation character (the hyphen is one).
\<close>

definition canonical :: "lowering \<Rightarrow> pystr \<Rightarrow> bool" where
  "canonical L w = (lower L w = w \<and> list_all (\<lambda>c. \<not> isspace c \<and> c \<notin> set punctuation) w)"



section \<open>Evaluating the string functions\<close>

lemma split_Nil: "split [] = []"
  by (simp add: split.simps)

lemma split_space: "isspace c \<Longrightarrow> split (c # cs) = split cs"
  by (subst split.simps, subst (2) split.simps) simp

lemma split_word:
  "\<not> isspace c \<Longrightarrow>
   split (c # cs) =
     (c # takeWhile (\<lambda>x. \<not> isspace x) cs) # split (dropWhile (\<lambda>x. \<not> isspace x) cs)"
  by (subst split.simps) simp

lemma in_punctuation:
  "c \<in> set punctuation \<longleftrightarrow>
     (33 \<le> c \<and> c \<le> 47) \<or> (58 \<le> c \<and> c \<le> 64) \<or> (91 \<le> c \<and> c \<le> 96) \<or> (123 \<le> c \<and> c \<le> 126)"
  unfolding punctuation_def set_append set_upt by auto

lemma drop_ConsD:
  assumes "drop i s = c # cs"
  shows "i < length s" and "s ! i = c" and "drop (Suc i) s = cs"
proof -
  show "i < length s"
    using assms by (cases "i < length s") simp_all
  show "s ! i = c"
    using assms by (rule nth_via_drop)
  show "drop (Suc i) s = cs"
    using assms by (metis drop_Suc list.sel(3) tl_drop)
qed

lemmas string_eval =
  ustr_def clean_text_def lower_def replace_char_def translate_delete_def punctuation_def
  ascii_lower_def split_Nil split_space split_word isspace_def strip_def

section \<open>The classifier on the hyphenated interjection\<close>

text \<open>
  C1. The claim is that \<open>is_backchannel("uh-huh")\<close> is true because both tokens \<open>uh\<close> and
  \<open>huh\<close> are in the lexicon. On the code the call returns false, whatever the runtime's
  lowercasing of other code points: the hyphen becomes a space, the words tested are \<open>uh\<close>
  and \<open>huh\<close>, and neither is in \<open>IGNORE_WORDS\<close>, which holds only the hyphenated form
  \<open>uh-huh\<close> and the joined form \<open>uhhuh\<close>.
\<close>

theorem uh_huh_not_backchannel:
  "is_backchannel L IGNORE_WORDS (ustr ''uh-huh'') = False
   \<and> split (clean_text L (ustr ''uh-huh'')) = [ustr ''uh'', ustr ''huh'']
   \<and> ustr ''uh'' \<notin> IGNORE_WORDS \<and> ustr ''huh'' \<notin> IGNORE_WORDS
   \<and> ustr ''uh-huh'' \<in> IGNORE_WORDS"
  by (simp add: string_eval is_backchannel_def IGNORE_WORDS_def)

section \<open>The two triggers\<close>

text \<open>
  C2. On the turn-completion trigger \<open>generate_reply\<close> is called if and only if the agent
  is not speaking, for every content: a silent agent logs the reply and calls
  \<open>generate_reply\<close> without looking at the text, and a speaking agent does nothing.
\<close>

theorem reply_iff_silent:
  "on_user_speech_committed agent_speaking content =
     (if agent_speaking then [] else [LogReply (strip content), GenerateReply])
   \<and> (GenerateReply \<in> set (on_user_speech_committed agent_speaking content)) = (\<not> agent_speaking)"
  by (simp add: on_user_speech_committed_def)

text \<open>
  C3. While the agent is speaking, \<open>should_interrupt\<close> is the negation of
  \<open>is_backchannel\<close>, and on a fragment that is not empty after stripping the
  partial-transcription handler only logs IGNORE for a backchannel and otherwise logs
  INTERRUPT and calls \<open>interrupt\<close>.
\<close>

theorem speaking_decision:
  assumes "strip content \<noteq> []"
  shows "should_interrupt L W text True = (\<not> is_backchannel L W text)
    \<and> on_transcription L W True content =
        (if is_backchannel L W (strip content) then [LogIgnore (strip content)]
         else [LogInterrupt (strip content), Interrupt])"
  using assms by (simp add: should_interrupt_def on_transcription_def)

theorem speaking_decision_witness:
  "strip (ustr '' stop '') \<noteq> []
   \<and> should_interrupt keep_lowering IGNORE_WORDS (ustr ''yeah'') True = False
   \<and> on_transcription keep_lowering IGNORE_WORDS True (ustr '' stop '')
       = [LogInterrupt (ustr ''stop''), Interrupt]"
proof -
  have h: "strip (ustr '' stop '') \<noteq> []"
    by (simp add: string_eval)
  have s: "strip (ustr '' stop '') = ustr ''stop''"
    by (simp add: string_eval)
  have y: "is_backchannel keep_lowering IGNORE_WORDS (ustr ''yeah'')"
    by (simp add: string_eval is_backchannel_def IGNORE_WORDS_def)
  have n: "\<not> is_backchannel keep_lowering IGNORE_WORDS (ustr ''stop'')"
    by (simp add: string_eval is_backchannel_def IGNORE_WORDS_def)
  show ?thesis
    using speaking_decision [OF h, of keep_lowering IGNORE_WORDS "ustr ''yeah''"] h y n
    by (simp add: s)
qed

text \<open>
  C4. While the agent is not speaking, \<open>should_interrupt\<close> is false for every text and
  the partial-transcription handler has no effect at all: no log record and no call.
\<close>

theorem silent_no_interrupt:
  "should_interrupt L W text False = False \<and> on_transcription L W False content = []"
  by (simp add: should_interrupt_def on_transcription_def Let_def)

text \<open>
  C5, as claimed: a text that is empty after stripping leads to no action on both
  triggers. The turn-completion handler has no such test: for a silent agent it logs the
  reply and calls \<open>generate_reply\<close> on two spaces as on any other content.
\<close>

theorem empty_text_reply_counterexample:
  "strip (ustr ''  '') = []
   \<and> on_user_speech_committed False (ustr ''  '') = [LogReply [], GenerateReply]"
  by (simp add: string_eval on_user_speech_committed_def)

text \<open>
  C5, amended. For a content that is empty after stripping, the partial-transcription
  handler has no effect, whether the agent speaks or not, and the turn-completion handler
  has no effect while the agent is speaking; for a silent agent the turn-completion
  handler replies, as it does for every content.
\<close>

theorem empty_text_decisions:
  assumes "strip content = []"
  shows "on_transcription L W agent_speaking content = []
    \<and> on_user_speech_committed True content = []
    \<and> on_user_speech_committed False content = [LogReply [], GenerateReply]"
  using assms by (simp add: on_transcription_def on_user_speech_committed_def)

theorem empty_text_decisions_witness:
  "strip (ustr ''  '') = []
   \<and> on_transcription keep_lowering IGNORE_WORDS True (ustr ''  '') = []
   \<and> on_user_speech_committed True (ustr ''  '') = []"
proof -
  have h: "strip (ustr ''  '') = []"
    by (simp add: string_eval)
  show ?thesis
    using empty_text_decisions [OF h, of keep_lowering IGNORE_WORDS True] h by simp
qed

section \<open>None in place of a string\<close>

text \<open>
  C7, as claimed: no exception leaves the two functions for any input value, \<open>None\<close>
  included. On \<open>None\<close> the attribute lookup \<open>text.replace\<close> raises, and the exception
  leaves \<open>is_backchannel\<close> and, while the agent is speaking, \<open>should_interrupt\<close>.
\<close>

theorem none_raises_counterexample:
  "is_backchannel_any keep_lowering IGNORE_WORDS PyNone = Inl AttributeError
   \<and> should_interrupt_any keep_lowering IGNORE_WORDS PyNone True = Inl AttributeError"
  by (simp add: should_interrupt_any_def is_backchannel_any_def)

text \<open>
  C7, amended. On every string both functions return a boolean, the one the typed
  functions compute, and no exception leaves them. On \<open>None\<close>, \<open>is_backchannel\<close> raises
  \<open>AttributeError\<close>; \<open>should_interrupt\<close> raises it while the agent is speaking and
  returns false while the agent is silent.
\<close>

theorem total_on_strings:
  "is_backchannel_any L W (PyStr text) = Inr (is_backchannel L W text)
   \<and> should_interrupt_any L W (PyStr text) sp = Inr (should_interrupt L W text sp)
   \<and> is_backchannel_any L W PyNone = Inl AttributeError
   \<and> should_interrupt_any L W PyNone True = Inl AttributeError
   \<and> should_interrupt_any L W PyNone False = Inr False"
proof -
  have a: "is_backchannel_any L W (PyStr text) = Inr (is_backchannel L W text)"
    by (simp add: is_backchannel_any_def is_backchannel_def clean_text_def Let_def)
  have b: "should_interrupt_any L W (PyStr text) sp = Inr (should_interrupt L W text sp)"
    by (simp add: should_interrupt_any_def should_interrupt_def a)
  have c: "is_backchannel_any L W PyNone = Inl AttributeError"
    by (simp add: is_backchannel_any_def)
  show ?thesis
    using a b c by (simp add: should_interrupt_any_def)
qed

section \<open>The classifier against the specified algorithm\<close>

text \<open>
  Cutting at every white space character and discarding the empty fields gives the words
  of \<open>split\<close>.
\<close>

lemma cut_fields_not_Nil: "cut_fields s \<noteq> []"
  by (induction s) (auto split: list.splits)

lemma cut_fields_run:
  "\<forall>x\<in>set w. \<not> isspace x \<Longrightarrow> isspace d \<Longrightarrow>
   cut_fields (w @ d # rest) = w # cut_fields rest"
  by (induction w) (auto split: list.splits simp: cut_fields_not_Nil)

lemma cut_fields_run_end: "\<forall>x\<in>set w. \<not> isspace x \<Longrightarrow> cut_fields w = [w]"
  by (induction w) (auto split: list.splits)

lemma split_cut_fields: "split s = filter (\<lambda>t. t \<noteq> []) (cut_fields s)"
proof (induction s rule: split.induct)
  case (1 s)
  show ?case
  proof (cases "dropWhile isspace s")
    case Nil
    then have all: "\<forall>x\<in>set s. isspace x"
      by (simp add: dropWhile_eq_Nil_conv)
    have "filter (\<lambda>t. t \<noteq> []) (cut_fields s) = []" using all
      by (induction s) auto
    moreover have "split s = []"
      by (subst split.simps) (simp only: Nil list.case)
    ultimately show ?thesis by simp
  next
    case (Cons c cs)
    let ?w = "c # takeWhile (\<lambda>x. \<not> isspace x) cs"
    let ?r = "dropWhile (\<lambda>x. \<not> isspace x) cs"
    have c: "\<not> isspace c"
      using Cons by (metis hd_dropWhile list.sel(1) list.distinct(1))
    have sp: "split s = ?w # split ?r"
      by (subst split.simps) (simp only: Cons list.case)
    have ih: "split ?r = filter (\<lambda>t. t \<noteq> []) (cut_fields ?r)"
      using 1 [OF Cons] .
    have pre: "filter (\<lambda>t. t \<noteq> []) (cut_fields s) = filter (\<lambda>t. t \<noteq> []) (cut_fields (c # cs))"
    proof -
      have "s = takeWhile isspace s @ c # cs"
        using Cons by (metis takeWhile_dropWhile_id)
      moreover have "filter (\<lambda>t. t \<noteq> []) (cut_fields (p @ q)) = filter (\<lambda>t. t \<noteq> []) (cut_fields q)"
        if "\<forall>x\<in>set p. isspace x" for p q
        using that by (induction p) auto
      moreover have "\<forall>x\<in>set (takeWhile isspace s). isspace x"
        by (auto dest: set_takeWhileD)
      ultimately show ?thesis by metis
    qed
    have w: "\<forall>x\<in>set ?w. \<not> isspace x"
      using c by (auto dest: set_takeWhileD)
    have "filter (\<lambda>t. t \<noteq> []) (cut_fields (c # cs)) = ?w # filter (\<lambda>t. t \<noteq> []) (cut_fields ?r)"
    proof (cases ?r)
      case Nil
      then have "c # cs = ?w"
        by (metis takeWhile_dropWhile_id append_Nil2)
      then have "cut_fields (c # cs) = [?w]"
        using cut_fields_run_end [OF w] by simp
      moreover have "cut_fields ?r = [[]]"
        by (simp only: Nil cut_fields.simps)
      ultimately show ?thesis by simp
    next
      case (Cons d rest)
      have d: "isspace d"
        using Cons by (metis hd_dropWhile list.sel(1) list.distinct(1))
      have "c # cs = ?w @ d # rest"
        using Cons by (metis takeWhile_dropWhile_id append_Cons)
      then have "cut_fields (c # cs) = ?w # cut_fields rest"
        using cut_fields_run [OF w d, of rest] by simp
      then show ?thesis using Cons d by simp
    qed
    then show ?thesis using sp ih pre by simp
  qed
qed

lemma split_all_space:
  assumes "\<forall>x\<in>set s. isspace x"
  shows "split s = []"
proof -
  have d: "dropWhile isspace s = []"
    using assms by simp
  show ?thesis
    by (subst split.simps) (simp only: d list.case)
qed

lemma lower_from_ascii_space:
  "\<forall>c\<in>set cs. c < 128 \<and> isspace c \<Longrightarrow> lower_from L s i cs = cs"
  by (induction cs arbitrary: i) (auto simp: ascii_lower_def isspace_def)

lemma clean_text_blank:
  assumes "\<forall>c\<in>set text. c \<in> set punctuation \<or> (isspace c \<and> c < 128)"
  shows "clean_text L text = filter (\<lambda>c. c \<notin> set punctuation) (replace_char 45 32 text)"
    and "\<forall>c\<in>set (clean_text L text). isspace c"
proof -
  let ?f = "filter (\<lambda>c. c \<notin> set punctuation) (replace_char 45 32 text)"
  have f: "\<forall>c\<in>set ?f. c < 128 \<and> isspace c"
    using assms by (auto simp: replace_char_def isspace_def)
  show a: "clean_text L text = ?f"
    unfolding clean_text_def lower_def translate_delete_def
    by (rule lower_from_ascii_space) (use f in blast)
  show "\<forall>c\<in>set (clean_text L text). isspace c"
    unfolding a using f by blast
qed

lemma lower_from_space:
  assumes k: "lowering_keeps_space L"
  shows "drop i s = cs \<Longrightarrow> \<forall>c\<in>set cs. isspace c \<Longrightarrow> lower_from L s i cs = cs"
proof (induction cs arbitrary: i)
  case Nil
  show ?case by simp
next
  case (Cons c cs)
  note d = drop_ConsD [OF Cons.prems(1)]
  have sp: "isspace c"
    using Cons.prems(2) by simp
  have tl: "lower_from L s (Suc i) cs = cs"
    using Cons.IH [OF d(3)] Cons.prems(2) by simp
  have hd: "(if c < 128 then [ascii_lower c] else L s i) = [c]"
  proof (cases "c < 128")
    case True
    then show ?thesis
      using sp by (auto simp: ascii_lower_def isspace_def)
  next
    case False
    then have "i < length s \<and> 128 \<le> s ! i \<and> isspace (s ! i)"
      using d(1,2) sp by simp
    then have "L s i = [s ! i]"
      using k unfolding lowering_keeps_space_def by blast
    then show ?thesis
      using False d(2) by simp
  qed
  show ?case
    using hd tl by simp
qed

lemma clean_text_space:
  assumes "lowering_keeps_space L" and "\<forall>c\<in>set text. ascii_punct c \<or> isspace c"
  shows "\<forall>c\<in>set (clean_text L text). isspace c"
proof -
  let ?f = "filter (\<lambda>c. c \<notin> set punctuation) (replace_char 45 32 text)"
  have f: "\<forall>c\<in>set ?f. isspace c"
    using assms(2) by (auto simp: replace_char_def isspace_def ascii_punct_def)
  have "lower L ?f = ?f"
    unfolding lower_def by (rule lower_from_space [OF assms(1) _ f]) simp
  then show ?thesis
    using f by (simp add: clean_text_def translate_delete_def)
qed

lemma keep_lowering_keeps_space: "lowering_keeps_space keep_lowering"
  by (simp add: lowering_keeps_space_def keep_lowering_def)

text \<open>
  C6, as claimed: the code strips all punctuation characters, and a lone punctuation mark
  classifies as backchannel. The code strips the characters of \<open>string.punctuation\<close>
  only. On the text that is the single horizontal ellipsis, the specified algorithm, read
  with the ellipsis among the punctuation characters, finds no token and answers true;
  the code keeps the ellipsis as a token, answers false, and a speaking agent is
  interrupted.
\<close>

theorem lone_ellipsis_counterexample:
  "punct_with_ellipsis 8230
   \<and> spec_is_backchannel ascii_hyphen punct_with_ellipsis keep_lowering IGNORE_WORDS [8230] = True
   \<and> split (clean_text keep_lowering [8230]) = [[8230]]
   \<and> is_backchannel keep_lowering IGNORE_WORDS [8230] = False
   \<and> on_transcription keep_lowering IGNORE_WORDS True [8230] = [LogInterrupt [8230], Interrupt]"
  by (simp add: punct_with_ellipsis_def spec_is_backchannel_def spec_tokens_def ascii_punct_def
      ascii_hyphen_def in_punctuation keep_lowering_def string_eval is_backchannel_def
      IGNORE_WORDS_def on_transcription_def should_interrupt_def)

text \<open>
  C6, amended. For every string, lexicon and lowercasing table, \<open>is_backchannel\<close> returns
  what the six steps return when the hyphen is the hyphen-minus and the punctuation
  characters are the 32 of \<open>string.punctuation\<close>: true when no token is left, otherwise
  whether every token is in the lexicon. A text of ASCII punctuation and ASCII white
  space only (the empty string, blanks, a lone full stop) leaves no token and is a
  backchannel; so is a text of ASCII punctuation and any white space, under a
  lowercasing table in which white space is its own lowercase.
\<close>

theorem classifier_refines_spec:
  "is_backchannel L W text = spec_is_backchannel ascii_hyphen ascii_punct L W text
   \<and> is_backchannel L W text =
       (spec_tokens ascii_hyphen ascii_punct L text = []
        \<or> (\<forall>t\<in>set (spec_tokens ascii_hyphen ascii_punct L text). t \<in> W))
   \<and> ((\<forall>c\<in>set text. ascii_punct c \<or> (isspace c \<and> c < 128))
        \<longrightarrow> spec_tokens ascii_hyphen ascii_punct L text = [] \<and> is_backchannel L W text)
   \<and> (lowering_keeps_space L \<and> (\<forall>c\<in>set text. ascii_punct c \<or> isspace c)
        \<longrightarrow> spec_tokens ascii_hyphen ascii_punct L text = [] \<and> is_backchannel L W text)"
proof -
  let ?tokens = "spec_tokens ascii_hyphen ascii_punct L text"
  have tok: "split (clean_text L text) = ?tokens"
    by (simp add: split_cut_fields spec_tokens_def clean_text_def translate_delete_def
        replace_char_def ascii_hyphen_def ascii_punct_def)
  have a: "is_backchannel L W text = spec_is_backchannel ascii_hyphen ascii_punct L W text"
    by (auto simp: is_backchannel_def spec_is_backchannel_def tok Let_def list_all_iff)
  have b: "is_backchannel L W text = (?tokens = [] \<or> (\<forall>t\<in>set ?tokens. t \<in> W))"
    by (auto simp: is_backchannel_def tok Let_def)
  have blank: "?tokens = [] \<and> is_backchannel L W text"
    if "\<forall>c\<in>set (clean_text L text). isspace c"
  proof -
    have "split (clean_text L text) = []"
      using that by (rule split_all_space)
    then show ?thesis
      using tok by (simp add: is_backchannel_def)
  qed
  have c: "?tokens = [] \<and> is_backchannel L W text"
    if "\<forall>c\<in>set text. ascii_punct c \<or> (isspace c \<and> c < 128)"
    using that clean_text_blank(2) [of "text" L] blank by (simp add: ascii_punct_def)
  have d: "?tokens = [] \<and> is_backchannel L W text"
    if "lowering_keeps_space L \<and> (\<forall>c\<in>set text. ascii_punct c \<or> isspace c)"
    using that clean_text_space [of L "text"] blank by blast
  show ?thesis
    using a b c d by blast
qed

theorem classifier_refines_spec_witness:
  "spec_tokens ascii_hyphen ascii_punct keep_lowering (ustr ''.'') = []
   \<and> is_backchannel keep_lowering IGNORE_WORDS (ustr [])
   \<and> is_backchannel keep_lowering IGNORE_WORDS (ustr ''   '')
   \<and> is_backchannel keep_lowering IGNORE_WORDS (ustr ''.'')
   \<and> lowering_keeps_space keep_lowering
   \<and> is_backchannel keep_lowering IGNORE_WORDS [160, 8195]
   \<and> spec_is_backchannel ascii_hyphen ascii_punct keep_lowering IGNORE_WORDS (ustr ''Yeah, okay!'')
   \<and> \<not> spec_is_backchannel ascii_hyphen ascii_punct keep_lowering IGNORE_WORDS
         (ustr ''Yeah but wait'')"
proof -
  have e: "\<forall>c\<in>set (ustr []). ascii_punct c \<or> (isspace c \<and> c < 128)"
    by (simp add: ustr_def)
  have s: "\<forall>c\<in>set (ustr ''   ''). ascii_punct c \<or> (isspace c \<and> c < 128)"
    by (simp add: ustr_def isspace_def)
  have d: "\<forall>c\<in>set (ustr ''.''). ascii_punct c \<or> (isspace c \<and> c < 128)"
    by (simp add: ustr_def ascii_punct_def in_punctuation)
  have u: "\<forall>c\<in>set [160, 8195]. ascii_punct c \<or> isspace c"
    by (simp add: isspace_def)
  have y: "is_backchannel keep_lowering IGNORE_WORDS (ustr ''Yeah, okay!'')"
    by (simp add: string_eval is_backchannel_def IGNORE_WORDS_def)
  have n: "\<not> is_backchannel keep_lowering IGNORE_WORDS (ustr ''Yeah but wait'')"
    by (simp add: string_eval is_backchannel_def IGNORE_WORDS_def)
  show ?thesis
    using classifier_refines_spec [of keep_lowering IGNORE_WORDS "ustr []"]
      classifier_refines_spec [of keep_lowering IGNORE_WORDS "ustr ''   ''"]
      classifier_refines_spec [of keep_lowering IGNORE_WORDS "ustr ''.''"]
      classifier_refines_spec [of keep_lowering IGNORE_WORDS "[160, 8195]"]
      classifier_refines_spec [of keep_lowering IGNORE_WORDS "ustr ''Yeah, okay!''"]
      classifier_refines_spec [of keep_lowering IGNORE_WORDS "ustr ''Yeah but wait''"]
      keep_lowering_keeps_space e s d u y n
    by blast
qed

section \<open>The entries of the ignore list\<close>

text \<open>
  C8, as claimed: every token stored in the lexicon is canonical. The set holds
  \<open>uh-huh\<close>, which contains the hyphen, a punctuation character.
\<close>

theorem hyphenated_entry_counterexample:
  "ustr ''uh-huh'' \<in> IGNORE_WORDS \<and> \<not> canonical keep_lowering (ustr ''uh-huh'')
   \<and> 45 \<in> set (ustr ''uh-huh'') \<and> 45 \<in> set punctuation"
  by (simp add: IGNORE_WORDS_def canonical_def ustr_def punctuation_def)

text \<open>
  C8, amended. Every token stored in the lexicon is unchanged by lowercasing and holds no
  white space and no punctuation character other than the hyphen; all entries are
  canonical except \<open>uh-huh\<close> and \<open>mm-hm\<close>.
\<close>

theorem lexicon_entries:
  "\<forall>w\<in>IGNORE_WORDS.
     lower L w = w
     \<and> list_all (\<lambda>c. \<not> isspace c \<and> (c \<in> set punctuation \<longrightarrow> c = 45)) w
     \<and> canonical L w = (w \<noteq> ustr ''uh-huh'' \<and> w \<noteq> ustr ''mm-hm'')"
  unfolding IGNORE_WORDS_def
  by (simp add: canonical_def ustr_def lower_def ascii_lower_def isspace_def in_punctuation)

theorem lexicon_entries_witness:
  "ustr ''yeah'' \<in> IGNORE_WORDS \<and> canonical keep_lowering (ustr ''yeah'')
   \<and> ustr ''mm-hm'' \<in> IGNORE_WORDS \<and> \<not> canonical keep_lowering (ustr ''mm-hm'')
   \<and> lower keep_lowering (ustr ''mm-hm'') = ustr ''mm-hm''"
proof -
  have y: "ustr ''yeah'' \<in> IGNORE_WORDS" and m: "ustr ''mm-hm'' \<in> IGNORE_WORDS"
    by (simp_all add: IGNORE_WORDS_def)
  have d: "ustr ''yeah'' \<noteq> ustr ''uh-huh''" "ustr ''yeah'' \<noteq> ustr ''mm-hm''"
    by (simp_all add: ustr_def)
  show ?thesis
    using bspec [OF lexicon_entries [of keep_lowering] y]
      bspec [OF lexicon_entries [of keep_lowering] m] y m d
    by simp
qed

section \<open>The words that are tested\<close>









section \<open>Calls leave the objects of the store as they are\<close>

lemma alloc_untouched:
  assumes "store_ok st" and "heap st (ignore_words_ref st) = Some (SetObj W)"
    and "alloc ob st = (a, st')"
  shows "untouched st st'" and "heap st' a = Some ob" and "lexicon st' = W"
    and "heap st' (ignore_words_ref st') = Some (SetObj W)"
proof -
  have ref: "ignore_words_ref st < next_addr st"
    using assms(1,2) by (auto simp: store_ok_def not_le [symmetric])
  have st': "st' = st\<lparr>heap := (heap st)(next_addr st := Some ob), next_addr := Suc (next_addr st)\<rparr>"
    and a: "a = next_addr st"
    using assms(3) by (auto simp: alloc_def)
  show w: "heap st' (ignore_words_ref st') = Some (SetObj W)"
    using ref assms(2) by (simp add: st')
  show "heap st' a = Some ob"
    by (simp add: st' a)
  show "lexicon st' = W"
    using w by (simp add: lexicon_def)
  have "store_ok st'"
    using assms(1) w unfolding store_ok_def by (auto simp: st')
  then show "untouched st st'"
    by (simp add: untouched_def st')
qed

lemma untouched_trans:
  "untouched st st1 \<Longrightarrow> untouched st1 st2 \<Longrightarrow> untouched st st2"
  by (auto simp: untouched_def)

lemma is_backchannel_call_result:
  assumes ok: "store_ok st" and lex: "heap st (ignore_words_ref st) = Some (SetObj W)"
  shows "\<exists>st'. is_backchannel_call L text st = Some (is_backchannel L W text, st')
          \<and> untouched st st' \<and> heap st' (ignore_words_ref st') = Some (SetObj W)"
proof -
  let ?ws = "split (clean_text L text)"
  obtain words st1 where al: "alloc (ListObj ?ws) st = (words, st1)"
    by (cases "alloc (ListObj ?ws) st")
  note s1 = alloc_untouched [OF ok lex al]
  have ok1: "store_ok st1"
    using s1(1) by (simp add: untouched_def)
  have emp: "list_is_empty words st1 = Some (?ws = [])"
    using s1(2) by (simp add: list_is_empty_def)
  show ?thesis
  proof (cases "?ws = []")
    case True
    have "alloc (ListObj []) st = (words, st1)" and "list_is_empty words st1 = Some True"
      using al emp True by simp_all
    then have "is_backchannel_call L text st = Some (True, st1)"
      by (simp add: is_backchannel_call_def True)
    then show ?thesis
      using True s1(1,4) by (simp add: is_backchannel_def)
  next
    case False
    obtain s st2 where al2: "alloc (SetObj (set ?ws)) st1 = (s, st2)"
      by (cases "alloc (SetObj (set ?ws)) st1")
    note s2 = alloc_untouched [OF ok1 s1(4) al2]
    have sol: "set_of_list words st1 = Some (s, st2)"
      using s1(2) al2 by (simp add: set_of_list_def)
    have sub: "issubset s (ignore_words_ref st2) st2 = Some (set ?ws \<subseteq> W)"
      using s2(2,4) by (simp add: issubset_def)
    have "is_backchannel_call L text st = Some (set ?ws \<subseteq> W, st2)"
      by (simp add: is_backchannel_call_def al emp False sol sub)
    moreover have "untouched st st2"
      using s1(1) s2(1) by (rule untouched_trans)
    ultimately show ?thesis
      using False s2(4) by (simp add: is_backchannel_def Let_def)
  qed
qed

lemma should_interrupt_call_result:
  assumes ok: "store_ok st" and lex: "heap st (ignore_words_ref st) = Some (SetObj W)"
  shows "\<exists>st'. should_interrupt_call L text sp st = Some (should_interrupt L W text sp, st')
          \<and> untouched st st' \<and> heap st' (ignore_words_ref st') = Some (SetObj W)"
proof (cases sp)
  case False
  have "untouched st st"
    using ok by (simp add: untouched_def)
  then show ?thesis
    using False lex by (simp add: should_interrupt_call_def should_interrupt_def)
next
  case True
  obtain st' where c: "is_backchannel_call L text st = Some (is_backchannel L W text, st')"
    and u: "untouched st st'" "heap st' (ignore_words_ref st') = Some (SetObj W)"
    using is_backchannel_call_result [OF ok lex] by blast
  show ?thesis
    using True c u by (auto simp: should_interrupt_call_def should_interrupt_def)
qed

lemma store_ok_lexicon:
  "store_ok st \<Longrightarrow> heap st (ignore_words_ref st) = Some (SetObj (lexicon st))"
  by (auto simp: store_ok_def lexicon_def)

lemma module_store_ok: "store_ok module_store"
  by (simp add: store_ok_def module_store_def)

text \<open>
  C9. From every store in which the global is bound to a set, a call of \<open>is_backchannel\<close>
  or of \<open>should_interrupt\<close> returns, and all it does to the store is to add the list
  \<open>words\<close> and the set \<open>set(words)\<close> under new addresses: every object that lived
  before the call is the same after it, the global is bound to the same address, and
  the lexicon is the same set. The boolean returned is the value of the pure function
  at that lexicon, and a second call with the same arguments, which runs in the store
  the first one left, returns the same boolean and again leaves the lexicon as it was.
\<close>

theorem calls_leave_store:
  assumes "store_ok st"
  shows "(case is_backchannel_call L text st of
            None \<Rightarrow> False
          | Some (b, st') \<Rightarrow>
              b = is_backchannel L (lexicon st) text \<and> untouched st st'
              \<and> lexicon st' = lexicon st
              \<and> (case is_backchannel_call L text st' of
                    None \<Rightarrow> False
                  | Some (b2, st'') \<Rightarrow>
                      b2 = b \<and> untouched st st'' \<and> lexicon st'' = lexicon st))
       \<and> (case should_interrupt_call L text sp st of
            None \<Rightarrow> False
          | Some (b, st') \<Rightarrow>
              b = should_interrupt L (lexicon st) text sp \<and> untouched st st'
              \<and> lexicon st' = lexicon st
              \<and> (case should_interrupt_call L text sp st' of
                    None \<Rightarrow> False
                  | Some (b2, st'') \<Rightarrow>
                      b2 = b \<and> untouched st st'' \<and> lexicon st'' = lexicon st))"
proof -
  let ?W = "lexicon st"
  note lex = store_ok_lexicon [OF assms]
  obtain st1 where c1: "is_backchannel_call L text st = Some (is_backchannel L ?W text, st1)"
    and u1: "untouched st st1" and l1: "heap st1 (ignore_words_ref st1) = Some (SetObj ?W)"
    using is_backchannel_call_result [OF assms lex] by blast
  have ok1: "store_ok st1"
    using u1 by (simp add: untouched_def)
  obtain st2 where c2: "is_backchannel_call L text st1 = Some (is_backchannel L ?W text, st2)"
    and u2: "untouched st1 st2" and l2: "heap st2 (ignore_words_ref st2) = Some (SetObj ?W)"
    using is_backchannel_call_result [OF ok1 l1] by blast
  have a: "lexicon st1 = ?W" "lexicon st2 = ?W" "untouched st st2"
    using l1 l2 untouched_trans [OF u1 u2] by (simp_all add: lexicon_def)
  obtain t1 where d1: "should_interrupt_call L text sp st
      = Some (should_interrupt L ?W text sp, t1)"
    and v1: "untouched st t1" and m1: "heap t1 (ignore_words_ref t1) = Some (SetObj ?W)"
    using should_interrupt_call_result [OF assms lex] by blast
  have okt: "store_ok t1"
    using v1 by (simp add: untouched_def)
  obtain t2 where d2: "should_interrupt_call L text sp t1
      = Some (should_interrupt L ?W text sp, t2)"
    and v2: "untouched t1 t2" and m2: "heap t2 (ignore_words_ref t2) = Some (SetObj ?W)"
    using should_interrupt_call_result [OF okt m1] by blast
  have b: "lexicon t1 = ?W" "lexicon t2 = ?W" "untouched st t2"
    using m1 m2 untouched_trans [OF v1 v2] by (simp_all add: lexicon_def)
  show ?thesis
    using c1 c2 u1 a d1 d2 v1 b by simp
qed

theorem calls_leave_store_witness:
  "store_ok module_store
   \<and> lexicon module_store = IGNORE_WORDS
   \<and> map_option fst (is_backchannel_call keep_lowering (ustr ''yeah'') module_store) = Some True
   \<and> map_option (lexicon \<circ> snd) (is_backchannel_call keep_lowering (ustr ''yeah'') module_store)
       = Some IGNORE_WORDS
   \<and> map_option fst (should_interrupt_call keep_lowering (ustr ''stop'') True module_store)
       = Some True"
proof -
  have l: "lexicon module_store = IGNORE_WORDS"
    by (simp add: lexicon_def module_store_def)
  have y: "is_backchannel keep_lowering IGNORE_WORDS (ustr ''yeah'')"
    by (simp add: string_eval is_backchannel_def IGNORE_WORDS_def)
  have n: "should_interrupt keep_lowering IGNORE_WORDS (ustr ''stop'') True"
    by (simp add: string_eval should_interrupt_def is_backchannel_def IGNORE_WORDS_def)
  show ?thesis
    using calls_leave_store [OF module_store_ok, of keep_lowering "ustr ''yeah''" True]
      calls_leave_store [OF module_store_ok, of keep_lowering "ustr ''stop''" True]
      module_store_ok l y n
    by (auto split: option.splits)
qed

end
